theory Spec2Isabelle
  imports Complex_Main "HOL-Library.Multiset" "HOL-Library.Word"
begin

unbundle bit_operations_syntax

section \<open>Data model (the types module)\<close>

text \<open>
  \<open>CostEstimate\<close>, \<open>DistanceMatrixElement\<close>, \<open>DistanceMatrix\<close> and \<open>OptimizationResult\<close>
  are the interfaces of the types module. A TypeScript \<open>number\<close> held in a matrix cell is
  modelled as a \<open>real\<close> (a finite value, no rounding); the fields \<open>min\<close> and \<open>max\<close> are
  named \<open>cmin\<close> and \<open>cmax\<close>. The optional field \<open>cost?\<close> is an \<open>option\<close>.
\<close>

record CostEstimate =
  cmin :: real
  cmax :: real

record DistanceMatrixElement =
  duration :: real
  distance :: real
  cost :: "CostEstimate option"

type_synonym DistanceMatrix = "DistanceMatrixElement list list"

record OptimizationResult =
  orderedStops :: "string list"
  totalDuration :: int
  totalDistance :: real
  totalCost :: CostEstimate

text \<open>
  Reading a property of \<open>undefined\<close> raises a TypeError; it is the only exception the
  module can raise.
\<close>

datatype error = TypeError

text \<open>
  The accumulators \<open>bestDistance\<close>, \<open>minCost\<close> and \<open>minDistance\<close> start at \<open>Infinity\<close>, and
  the table of the subset solver may hold it: a number that is a finite real or \<open>Infinity\<close>.
\<close>

datatype number = Fin real | Infinity

fun num_add :: "number \<Rightarrow> real \<Rightarrow> number" where
  "num_add (Fin a) b = Fin (a + b)"
| "num_add Infinity b = Infinity"

fun num_less :: "number \<Rightarrow> number \<Rightarrow> bool" where
  "num_less (Fin a) (Fin b) = (a < b)"
| "num_less (Fin a) Infinity = True"
| "num_less Infinity n = False"

section \<open>Helpers of the embedding\<close>

text \<open>
  The functions and variables keep the names of \<open>tsp-algorithms.ts\<close>, but for \<open>size\<close>,
  \<open>mask\<close>, \<open>subset\<close>, \<open>last\<close> and \<open>total\<close>, which are constants of HOL and are written
  \<open>sz\<close>, \<open>msk\<close>, \<open>sub\<close>, \<open>lst\<close> and \<open>acc\<close>.
\<close>

text \<open>
  \<open>matrix[a][b]\<close> followed by a property read (\<open>.duration\<close>): \<open>matrix[a]\<close> is \<open>undefined\<close>
  when \<open>a\<close> is not an index of the array, and so is \<open>matrix[a][b]\<close> when \<open>b\<close> is not an
  index of the row; reading a property of either raises.
\<close>

definition cellAt :: "DistanceMatrix \<Rightarrow> int \<Rightarrow> int \<Rightarrow> error + DistanceMatrixElement" where
  "cellAt matrix a b =
     (if 0 \<le> a \<and> a < int (length matrix)
      then (if 0 \<le> b \<and> b < int (length (matrix ! nat a))
            then Inr (matrix ! nat a ! nat b)
            else Inl TypeError)
      else Inl TypeError)"

text \<open>A \<open>for\<close> loop over a list whose body may raise: the first exception ends the loop.\<close>

fun foldE :: "('a \<Rightarrow> 's \<Rightarrow> error + 's) \<Rightarrow> 'a list \<Rightarrow> 's \<Rightarrow> error + 's" where
  "foldE f [] s = Inr s"
| "foldE f (x # xs) s = (case f x s of Inl e \<Rightarrow> Inl e | Inr s' \<Rightarrow> foldE f xs s')"

text \<open>
  The loop \<open>for (i = 0; i < route.length - 1; i++) total += matrix[route[i]][route[i + 1]].duration\<close>,
  written out in \<open>permute\<close> and in \<open>calculateTotalDistance\<close>, from a running total.
\<close>

fun sumEdges :: "DistanceMatrix \<Rightarrow> int list \<Rightarrow> real \<Rightarrow> error + real" where
  "sumEdges matrix (a # b # rest) acc =
     (case cellAt matrix a b of
        Inl e \<Rightarrow> Inl e
      | Inr c \<Rightarrow> sumEdges matrix (b # rest) (acc + duration c))"
| "sumEdges matrix [a] acc = Inr acc"
| "sumEdges matrix [] acc = Inr acc"

text \<open>\<open>String(i)\<close> on an integer: its decimal digits, after a minus sign when negative.\<close>

fun digits :: "nat \<Rightarrow> string" where
  "digits k = (if k < 10 then [''0123456789'' ! k]
               else digits (k div 10) @ [''0123456789'' ! (k mod 10)])"

declare digits.simps [simp del]

definition String :: "int \<Rightarrow> string" where
  "String i = (if i < 0 then CHR ''-'' # digits (nat (- i)) else digits (nat i))"

text \<open>\<open>Math.round\<close>: the nearest integer, a half rounding up.\<close>

definition Math_round :: "real \<Rightarrow> int" where
  "Math_round x = \<lfloor>x + 1 / 2\<rfloor>"

text \<open>\<open>Array.from({ length: n }, (_, i) => i)\<close>.\<close>

definition indices :: "nat \<Rightarrow> int list" where
  "indices k = map int [0..<k]"

section \<open>The arithmetic of numbers\<close>

text \<open>
  The metrics reducer adds and divides numbers, and its totals are the results of the
  language's own operations, each rounded to a double. It takes the arithmetic as a
  parameter: the addition and the division of numbers.
\<close>

record arithmetic =
  numAdd :: "real \<Rightarrow> real \<Rightarrow> real"
  numDiv :: "real \<Rightarrow> real \<Rightarrow> real"

text \<open>Addition and division without rounding.\<close>

definition exact :: arithmetic where
  "exact = \<lparr> numAdd = (+), numDiv = (/) \<rparr>"

text \<open>
  IEEE-754 binary64, the arithmetic of a \<open>number\<close>. \<open>binexp x\<close> is the binary exponent of a
  positive \<open>x\<close>, that is \<open>2 ^ binexp x \<le> x < 2 ^ (binexp x + 1)\<close>.
\<close>

function binexp :: "real \<Rightarrow> int" where
  "binexp x = (if x \<le> 0 then 0
               else if 2 \<le> x then binexp (x / 2) + 1
               else if x < 1 then binexp (x * 2) - 1
               else 0)"
  by pat_completeness auto
termination
proof (relation "measure (\<lambda>x. nat \<bar>\<lfloor>log 2 x\<rfloor>\<bar>)")
  show "wf (measure (\<lambda>x. nat \<bar>\<lfloor>log 2 x\<rfloor>\<bar>))" by simp
next
  fix x :: real assume "\<not> x \<le> 0" "2 \<le> x"
  then have 1: "log 2 (x / 2) = log 2 x - 1"
    by (simp add: log_divide_pos)
  have 2: "1 \<le> log 2 x"
    using \<open>2 \<le> x\<close> by (simp add: le_log_iff)
  then have "1 \<le> \<lfloor>log 2 x\<rfloor>" by simp
  then have "nat \<bar>\<lfloor>log 2 x\<rfloor> - 1\<bar> < nat \<bar>\<lfloor>log 2 x\<rfloor>\<bar>" by linarith
  then show "(x / 2, x) \<in> measure (\<lambda>x. nat \<bar>\<lfloor>log 2 x\<rfloor>\<bar>)"
    unfolding in_measure 1 by simp
next
  fix x :: real assume "\<not> x \<le> 0" "\<not> 2 \<le> x" "x < 1"
  then have 1: "log 2 (x * 2) = log 2 x + 1"
    by (simp add: log_mult_pos)
  have "log 2 x < 0"
    using \<open>\<not> x \<le> 0\<close> \<open>x < 1\<close> by simp
  then have "\<lfloor>log 2 x\<rfloor> < 0" by (simp add: floor_less_iff)
  then have "nat \<bar>\<lfloor>log 2 x\<rfloor> + 1\<bar> < nat \<bar>\<lfloor>log 2 x\<rfloor>\<bar>" by linarith
  then show "(x * 2, x) \<in> measure (\<lambda>x. nat \<bar>\<lfloor>log 2 x\<rfloor>\<bar>)"
    unfolding in_measure 1 by simp
qed

declare binexp.simps [simp del]

text \<open>The nearest integer, a tie going to the even one.\<close>

definition roundEven :: "real \<Rightarrow> int" where
  "roundEven x =
     (let f = \<lfloor>x\<rfloor>; d = x - of_int f in
      if d < 1 / 2 then f else if 1 / 2 < d then f + 1 else if even f then f else f + 1)"

definition scale2 :: "int \<Rightarrow> real" where
  "scale2 q = (if 0 \<le> q then 2 ^ nat q else 1 / 2 ^ nat (- q))"

text \<open>
  The double nearest to a real, ties to even: 53 significant bits, and no bit below
  \<open>2 ^ (- 1074)\<close>. A result beyond the largest double, which the language turns into
  \<open>Infinity\<close>, is outside the model.
\<close>

definition binary64 :: "real \<Rightarrow> real" where
  "binary64 x =
     (if x = 0 then 0
      else (let q = max (binexp \<bar>x\<bar> - 52) (- 1074) in
            of_int (roundEven (x / scale2 q)) * scale2 q))"

text \<open>
  The language's \<open>+\<close> and \<open>/\<close> on doubles: the exact result, rounded. Adding \<open>0\<close> to a double
  gives that double; the two cases are written first, so that they also hold of a real that
  is not a double.
\<close>

definition ieee :: arithmetic where
  "ieee = \<lparr> numAdd = (\<lambda>a b. if b = 0 then a else if a = 0 then b else binary64 (a + b)),
            numDiv = (\<lambda>a b. binary64 (a / b)) \<rparr>"

section \<open>calculateTotalDistance and calculateRouteMetrics\<close>

definition calculateTotalDistance :: "int list \<Rightarrow> DistanceMatrix \<Rightarrow> error + real" where
  "calculateTotalDistance route matrix = sumEdges matrix route 0"

text \<open>
  The loop of \<open>calculateRouteMetrics\<close> over the consecutive edges, on the four running
  totals \<open>(totalDuration, totalDistance, minCost, maxCost)\<close>, each \<open>+=\<close> an addition of
  numbers. \<open>if (element.cost)\<close> is true exactly when the cost object is present.
\<close>

fun metricsLoop :: "arithmetic \<Rightarrow> DistanceMatrix \<Rightarrow> int list \<Rightarrow> real \<times> real \<times> real \<times> real
    \<Rightarrow> error + (real \<times> real \<times> real \<times> real)" where
  "metricsLoop ar matrix (a # b # rest) (dur, dis, mn, mx) =
     (case cellAt matrix a b of
        Inl e \<Rightarrow> Inl e
      | Inr element \<Rightarrow>
          metricsLoop ar matrix (b # rest)
            (case cost element of
               Some c \<Rightarrow> (numAdd ar dur (duration element), numAdd ar dis (distance element),
                          numAdd ar mn (cmin c), numAdd ar mx (cmax c))
             | None \<Rightarrow> (numAdd ar dur (duration element), numAdd ar dis (distance element),
                        mn, mx)))"
| "metricsLoop ar matrix [a] acc = Inr acc"
| "metricsLoop ar matrix [] acc = Inr acc"

text \<open>
  \<open>calculateRouteMetrics\<close> in a given arithmetic. \<open>Math.round\<close> is exact on the double that
  the division returns.
\<close>

definition calculateRouteMetrics ::
    "arithmetic \<Rightarrow> int list \<Rightarrow> DistanceMatrix \<Rightarrow> error + OptimizationResult" where
  "calculateRouteMetrics ar route matrix =
     (case metricsLoop ar matrix route (0, 0, 0, 0) of
        Inl e \<Rightarrow> Inl e
      | Inr (dur, dis, mn, mx) \<Rightarrow>
          Inr \<lparr> orderedStops = map String route,
                totalDuration = Math_round (numDiv ar dur 60),
                totalDistance = dis,
                totalCost = \<lparr> cmin = mn, cmax = mx \<rparr> \<rparr>)"

section \<open>bruteForceOptimal\<close>

text \<open>
  The solvers compare and add durations as reals, and hand their route to the metrics
  reducer in the arithmetic \<open>exact\<close>.
\<close>

text \<open>
  The body of \<open>permute\<close> at \<open>arr.length === 0\<close>: the candidate route, its duration, the
  closing step in its three branches, and the update of \<open>(bestRoute, bestDistance)\<close>.
\<close>

definition permuteLeaf :: "DistanceMatrix \<Rightarrow> int \<Rightarrow> int option \<Rightarrow> int list
    \<Rightarrow> int list \<times> number \<Rightarrow> error + (int list \<times> number)" where
  "permuteLeaf matrix startIndex endIndex current best =
     (let route = startIndex # current in
      case sumEdges matrix route 0 of
        Inl e \<Rightarrow> Inl e
      | Inr d \<Rightarrow>
          (case (if endIndex \<noteq> None \<and> endIndex \<noteq> Some startIndex
                 then (case cellAt matrix (last route) (the endIndex) of
                         Inl e \<Rightarrow> Inl e
                       | Inr c \<Rightarrow> Inr (route @ [the endIndex], d + duration c))
                 else if endIndex = Some startIndex
                 then (case cellAt matrix (last route) startIndex of
                         Inl e \<Rightarrow> Inl e
                       | Inr c \<Rightarrow> Inr (route @ [startIndex], d + duration c))
                 else (case cellAt matrix (last route) startIndex of
                         Inl e \<Rightarrow> Inl e
                       | Inr c \<Rightarrow> Inr (route @ [startIndex], d + duration c))) of
             Inl e \<Rightarrow> Inl e
           | Inr (route', d') \<Rightarrow>
               if num_less (Fin d') (snd best) then Inr (route', Fin d') else Inr best))"

text \<open>
  \<open>permute(arr, current)\<close> and its \<open>for\<close> loop from index \<open>i\<close>, threading
  \<open>(bestRoute, bestDistance)\<close>.
\<close>

function permute :: "DistanceMatrix \<Rightarrow> int \<Rightarrow> int option \<Rightarrow> int list \<Rightarrow> int list
    \<Rightarrow> int list \<times> number \<Rightarrow> error + (int list \<times> number)"
  and permuteFrom :: "DistanceMatrix \<Rightarrow> int \<Rightarrow> int option \<Rightarrow> int list \<Rightarrow> int list \<Rightarrow> nat
    \<Rightarrow> int list \<times> number \<Rightarrow> error + (int list \<times> number)" where
  "permute matrix startIndex endIndex arr current best =
     (if length arr = 0 then permuteLeaf matrix startIndex endIndex current best
      else permuteFrom matrix startIndex endIndex arr current 0 best)"
| "permuteFrom matrix startIndex endIndex arr current i best =
     (if i < length arr
      then (case permute matrix startIndex endIndex (take i arr @ drop (i + 1) arr)
                   (current @ [arr ! i]) best of
              Inl e \<Rightarrow> Inl e
            | Inr best' \<Rightarrow> permuteFrom matrix startIndex endIndex arr current (i + 1) best')
      else Inr best)"
  by pat_completeness auto
termination
  by (relation "inv_image (less_than <*lex*> less_than) (\<lambda>x. case x of
          Inl (m, s, e, arr, cur, b) \<Rightarrow> (length arr, length arr + 1)
        | Inr (m, s, e, arr, cur, i, b) \<Rightarrow> (length arr, length arr - i))")
     auto

declare permute.simps [simp del] permuteFrom.simps [simp del]

definition bruteForceOptimal :: "DistanceMatrix \<Rightarrow> int \<Rightarrow> int option \<Rightarrow> error + OptimizationResult" where
  "bruteForceOptimal matrix startIndex endIndex =
     (let n = length matrix;
          cities = filter (\<lambda>i. i \<noteq> startIndex) (indices n) in
      case permute matrix startIndex endIndex cities [] ([], Infinity) of
        Inl e \<Rightarrow> Inl e
      | Inr (bestRoute, bestDistance) \<Rightarrow> calculateRouteMetrics exact bestRoute matrix)"

section \<open>heldKarpDP\<close>

text \<open>
  \<open>1 << city\<close> is a 32-bit integer, the shift count taken modulo 32. The maps \<open>dp\<close> and
  \<open>parent\<close> are keyed by the string \<open>`${mask},${city}`\<close>, which is one string for each pair
  of a 32-bit mask and an integer: the pair is the key.
\<close>

type_synonym dpkey = "32 word \<times> int"

definition shl1 :: "int \<Rightarrow> 32 word" where
  "shl1 city = push_bit (nat (city mod 32)) 1"

text \<open>
  \<open>dp.get(key) || Infinity\<close>: \<open>Infinity\<close> when the key is absent, and also when the stored
  value is falsy, that is \<open>0\<close>.
\<close>

definition orInfinity :: "number option \<Rightarrow> number" where
  "orInfinity v =
     (case v of
        None \<Rightarrow> Infinity
      | Some Infinity \<Rightarrow> Infinity
      | Some (Fin x) \<Rightarrow> if x = 0 then Infinity else Fin x)"

text \<open>\<open>generateSubsets\<close>: \<open>generate(start, current)\<close> and its loop from \<open>i\<close>; the subsets
  pushed to \<open>result\<close>, in the order they are pushed.\<close>

function generate :: "int list \<Rightarrow> nat \<Rightarrow> nat \<Rightarrow> int list \<Rightarrow> int list list"
  and generateFrom :: "int list \<Rightarrow> nat \<Rightarrow> nat \<Rightarrow> int list \<Rightarrow> int list list" where
  "generate arr sz start current =
     (if length current = sz then [current] else generateFrom arr sz start current)"
| "generateFrom arr sz i current =
     (if i < length arr
      then generate arr sz (i + 1) (current @ [arr ! i]) @ generateFrom arr sz (i + 1) current
      else [])"
  by pat_completeness auto
termination
  by (relation "measure (\<lambda>x. case x of
          Inl (arr, sz, start, current) \<Rightarrow> 2 * (length arr - start) + 1
        | Inr (arr, sz, i, current) \<Rightarrow> 2 * (length arr - i))")
     auto

definition generateSubsets :: "int list \<Rightarrow> nat \<Rightarrow> int list list" where
  "generateSubsets arr sz = generate arr sz 0 []"

definition getMask :: "int list \<Rightarrow> 32 word" where
  "getMask cities = fold (\<lambda>city msk. msk OR shl1 city) cities 0"

text \<open>
  \<open>reconstructPath\<close>: the \<open>while (current !== start)\<close> loop, \<open>path.unshift\<close> as a cons. The
  loop follows the \<open>parent\<close> map and need not end on every map, so not returning is \<open>None\<close>.
\<close>

partial_function (option) reconstructLoop ::
    "(dpkey \<rightharpoonup> int) \<Rightarrow> int \<Rightarrow> int list \<Rightarrow> int \<Rightarrow> 32 word \<Rightarrow> int list option" where
  "reconstructLoop parent start path current currentMask =
     (if current \<noteq> start
      then (case parent (currentMask, current) of
              None \<Rightarrow> Some (current # path)
            | Some prev \<Rightarrow>
                reconstructLoop parent start (current # path) prev (currentMask XOR shl1 current))
      else Some path)"

declare reconstructLoop.simps [code]

definition reconstructPath ::
    "(dpkey \<rightharpoonup> int) \<Rightarrow> 32 word \<Rightarrow> int \<Rightarrow> int \<Rightarrow> int list \<Rightarrow> int list option" where
  "reconstructPath parent msk lst start cities =
     (case reconstructLoop parent start [] lst msk of
        None \<Rightarrow> None
      | Some path \<Rightarrow> Some (start # path))"

text \<open>The base case: one entry of \<open>dp\<close> and of \<open>parent\<close> for each city.\<close>

definition hkBase :: "DistanceMatrix \<Rightarrow> int \<Rightarrow> int
    \<Rightarrow> (dpkey \<rightharpoonup> number) \<times> (dpkey \<rightharpoonup> int)
    \<Rightarrow> error + ((dpkey \<rightharpoonup> number) \<times> (dpkey \<rightharpoonup> int))" where
  "hkBase matrix startIndex city tables =
     (let msk = shl1 city; key = (msk, city) in
      case cellAt matrix startIndex city of
        Inl e \<Rightarrow> Inl e
      | Inr c \<Rightarrow> Inr ((fst tables)(key \<mapsto> Fin (duration c)), (snd tables)(key \<mapsto> startIndex)))"

text \<open>The loop over \<open>prev\<close>, on \<open>(minCost, bestPrev)\<close>.\<close>

definition hkPrev :: "DistanceMatrix \<Rightarrow> (dpkey \<rightharpoonup> number) \<Rightarrow> 32 word \<Rightarrow> int \<Rightarrow> int
    \<Rightarrow> number \<times> int \<Rightarrow> error + (number \<times> int)" where
  "hkPrev matrix dp prevMask lst prev best =
     (if prev = lst then Inr best
      else (let prevCost = orInfinity (dp (prevMask, prev)) in
            case cellAt matrix prev lst of
              Inl e \<Rightarrow> Inl e
            | Inr c \<Rightarrow>
                (let cost = num_add prevCost (duration c) in
                 if num_less cost (fst best) then Inr (cost, prev) else Inr best)))"

text \<open>The loop over \<open>last\<close>, for one subset, whose mask is \<open>msk\<close>.\<close>

definition hkLast :: "DistanceMatrix \<Rightarrow> int list \<Rightarrow> 32 word \<Rightarrow> int
    \<Rightarrow> (dpkey \<rightharpoonup> number) \<times> (dpkey \<rightharpoonup> int)
    \<Rightarrow> error + ((dpkey \<rightharpoonup> number) \<times> (dpkey \<rightharpoonup> int))" where
  "hkLast matrix sub msk lst tables =
     (let prevMask = msk XOR shl1 lst in
      case foldE (hkPrev matrix (fst tables) prevMask lst) sub (Infinity, - 1) of
        Inl e \<Rightarrow> Inl e
      | Inr (minCost, bestPrev) \<Rightarrow>
          Inr ((fst tables)((msk, lst) \<mapsto> minCost), (snd tables)((msk, lst) \<mapsto> bestPrev)))"

definition hkSubset :: "DistanceMatrix \<Rightarrow> int list
    \<Rightarrow> (dpkey \<rightharpoonup> number) \<times> (dpkey \<rightharpoonup> int)
    \<Rightarrow> error + ((dpkey \<rightharpoonup> number) \<times> (dpkey \<rightharpoonup> int))" where
  "hkSubset matrix sub tables = foldE (hkLast matrix sub (getMask sub)) sub tables"

definition hkSize :: "DistanceMatrix \<Rightarrow> int list \<Rightarrow> nat
    \<Rightarrow> (dpkey \<rightharpoonup> number) \<times> (dpkey \<rightharpoonup> int)
    \<Rightarrow> error + ((dpkey \<rightharpoonup> number) \<times> (dpkey \<rightharpoonup> int))" where
  "hkSize matrix cities sz tables = foldE (hkSubset matrix) (generateSubsets cities sz) tables"

text \<open>The choice of the best ending city, on \<open>(minCost, bestLast)\<close>.\<close>

definition hkFinal :: "DistanceMatrix \<Rightarrow> int \<Rightarrow> int option \<Rightarrow> (dpkey \<rightharpoonup> number) \<Rightarrow> 32 word
    \<Rightarrow> int \<Rightarrow> number \<times> int \<Rightarrow> error + (number \<times> int)" where
  "hkFinal matrix startIndex endIndex dp fullMask city best =
     (let cost = orInfinity (dp (fullMask, city)) in
      case (if endIndex \<noteq> None \<and> endIndex \<noteq> Some startIndex
            then cellAt matrix city (the endIndex)
            else cellAt matrix city startIndex) of
        Inl e \<Rightarrow> Inl e
      | Inr c \<Rightarrow>
          (let totalCost = num_add cost (duration c) in
           if num_less totalCost (fst best) then Inr (totalCost, city) else Inr best))"

definition heldKarpDP :: "DistanceMatrix \<Rightarrow> int \<Rightarrow> int option \<Rightarrow> (error + OptimizationResult) option" where
  "heldKarpDP matrix startIndex endIndex =
     (let n = length matrix;
          allCities = indices n;
          cities = filter (\<lambda>i. i \<noteq> startIndex) allCities in
      case foldE (hkBase matrix startIndex) cities (Map.empty, Map.empty) of
        Inl e \<Rightarrow> Some (Inl e)
      | Inr tables0 \<Rightarrow>
          (case foldE (hkSize matrix cities) [2 ..< length cities + 1] tables0 of
             Inl e \<Rightarrow> Some (Inl e)
           | Inr (dp, parent) \<Rightarrow>
               (let fullMask = getMask cities in
                case foldE (hkFinal matrix startIndex endIndex dp fullMask) cities (Infinity, - 1) of
                  Inl e \<Rightarrow> Some (Inl e)
                | Inr (minCost, bestLast) \<Rightarrow>
                    (case reconstructPath parent fullMask bestLast startIndex cities of
                       None \<Rightarrow> None
                     | Some route \<Rightarrow>
                         Some (calculateRouteMetrics exact
                                 (if endIndex \<noteq> None \<and> endIndex \<noteq> Some startIndex
                                  then route @ [the endIndex]
                                  else route @ [startIndex])
                                 matrix)))))"

section \<open>nearestNeighbor2Opt\<close>

text \<open>
  \<open>unvisited\<close> is a \<open>Set\<close>, iterated in insertion order: a list without repetition, and
  \<open>delete\<close> removes the element. The loop over the unvisited cities is on
  \<open>(nearest, minDistance)\<close>.
\<close>

definition nearestStep :: "DistanceMatrix \<Rightarrow> int \<Rightarrow> int \<Rightarrow> int \<times> number \<Rightarrow> error + (int \<times> number)" where
  "nearestStep matrix current city best =
     (case cellAt matrix current city of
        Inl e \<Rightarrow> Inl e
      | Inr c \<Rightarrow>
          if num_less (Fin (duration c)) (snd best) then Inr (city, Fin (duration c)) else Inr best)"

text \<open>The \<open>while (unvisited.size > 0)\<close> loop; not returning is \<open>None\<close>.\<close>

partial_function (option) nnLoop ::
    "DistanceMatrix \<Rightarrow> int list \<Rightarrow> int list \<Rightarrow> int \<Rightarrow> (error + int list) option" where
  "nnLoop matrix unvisited route current =
     (if length unvisited > 0
      then (case foldE (nearestStep matrix current) unvisited (- 1, Infinity) of
              Inl e \<Rightarrow> Some (Inl e)
            | Inr (nearest, minDistance) \<Rightarrow>
                nnLoop matrix (removeAll nearest unvisited) (route @ [nearest]) nearest)
      else Some (Inr route))"

declare nnLoop.simps [code]

definition nearestNeighborGreedy :: "DistanceMatrix \<Rightarrow> int \<Rightarrow> int option \<Rightarrow> (error + int list) option" where
  "nearestNeighborGreedy matrix startIndex endIndex =
     (let n = length matrix;
          unvisited = removeAll startIndex (indices n);
          unvisited = (if endIndex \<noteq> None \<and> endIndex \<noteq> Some startIndex
                       then removeAll (the endIndex) unvisited else unvisited) in
      case nnLoop matrix unvisited [startIndex] startIndex of
        None \<Rightarrow> None
      | Some (Inl e) \<Rightarrow> Some (Inl e)
      | Some (Inr route) \<Rightarrow>
          Some (Inr (if endIndex \<noteq> None \<and> endIndex \<noteq> Some startIndex
                     then route @ [the endIndex]
                     else route @ [startIndex])))"

text \<open>\<open>route.slice(a, b)\<close> for indices that are not negative.\<close>

definition slice :: "'a list \<Rightarrow> nat \<Rightarrow> nat \<Rightarrow> 'a list" where
  "slice xs a b = take (b - a) (drop a xs)"

definition twoOptSwap :: "int list \<Rightarrow> nat \<Rightarrow> nat \<Rightarrow> int list" where
  "twoOptSwap route i j = slice route 0 i @ rev (slice route i (j + 1)) @ drop (j + 1) route"

text \<open>The body of the two \<open>for\<close> loops of \<open>twoOptImprove\<close>, on \<open>(bestRoute, improved)\<close>.\<close>

definition twoOptStep :: "DistanceMatrix \<Rightarrow> nat \<Rightarrow> nat \<Rightarrow> int list \<times> bool \<Rightarrow> error + (int list \<times> bool)" where
  "twoOptStep matrix i j st =
     (let newRoute = twoOptSwap (fst st) i j in
      case calculateTotalDistance newRoute matrix of
        Inl e \<Rightarrow> Inl e
      | Inr dnew \<Rightarrow>
          (case calculateTotalDistance (fst st) matrix of
             Inl e \<Rightarrow> Inl e
           | Inr dbest \<Rightarrow> if dnew < dbest then Inr (newRoute, True) else Inr st))"

text \<open>
  One pass of the \<open>while\<close> loop: \<open>improved = false\<close>, then the two \<open>for\<close> loops. Their bounds
  read \<open>bestRoute.length\<close>, which a swap with \<open>i \<le> j < length - 1\<close> leaves as it is
  (\<open>length_twoOptSwap\<close> below), so they are the bounds at the start of the pass.
\<close>

definition twoOptPass :: "DistanceMatrix \<Rightarrow> int list \<Rightarrow> error + (int list \<times> bool)" where
  "twoOptPass matrix route =
     foldE (\<lambda>i. foldE (twoOptStep matrix i) [i + 1 ..< length route - 1])
       [1 ..< length route - 2] (route, False)"

text \<open>The \<open>while (improved)\<close> loop from the current \<open>bestRoute\<close>; not returning is \<open>None\<close>.\<close>

partial_function (option) twoOptImprove :: "int list \<Rightarrow> DistanceMatrix \<Rightarrow> (error + int list) option" where
  "twoOptImprove route matrix =
     (case twoOptPass matrix route of
        Inl e \<Rightarrow> Some (Inl e)
      | Inr (bestRoute, improved) \<Rightarrow>
          if improved then twoOptImprove bestRoute matrix else Some (Inr bestRoute))"

declare twoOptImprove.simps [code]

definition nearestNeighbor2Opt :: "DistanceMatrix \<Rightarrow> int \<Rightarrow> int option \<Rightarrow> (error + OptimizationResult) option" where
  "nearestNeighbor2Opt matrix startIndex endIndex =
     (case nearestNeighborGreedy matrix startIndex endIndex of
        None \<Rightarrow> None
      | Some (Inl e) \<Rightarrow> Some (Inl e)
      | Some (Inr route) \<Rightarrow>
          (case twoOptImprove route matrix of
             None \<Rightarrow> None
           | Some (Inl e) \<Rightarrow> Some (Inl e)
           | Some (Inr optimizedRoute) \<Rightarrow>
               Some (calculateRouteMetrics exact optimizedRoute matrix)))"

section \<open>optimizeRoute\<close>

definition optimizeRoute :: "DistanceMatrix \<Rightarrow> int \<Rightarrow> int option \<Rightarrow> (error + OptimizationResult) option" where
  "optimizeRoute matrix startIndex endIndex =
     (let n = length matrix in
      if n \<le> 7 then Some (bruteForceOptimal matrix startIndex endIndex)
      else if n \<le> 10 then heldKarpDP matrix startIndex endIndex
      else nearestNeighbor2Opt matrix startIndex endIndex)"

section \<open>The metrics reducer as the specification words it\<close>

text \<open>The consecutive edges of a route.\<close>

definition routeEdges :: "int list \<Rightarrow> (int \<times> int) list" where
  "routeEdges route = zip route (tl route)"

text \<open>A cell with no cost information counts as \<open>{min: 0, max: 0}\<close>.\<close>

definition missingCostAsZero :: "CostEstimate option \<Rightarrow> CostEstimate" where
  "missingCostAsZero c = (case c of None \<Rightarrow> \<lparr> cmin = 0, cmax = 0 \<rparr> | Some k \<Rightarrow> k)"

text \<open>The sum of a list of numbers: from \<open>0\<close>, adding one number after the other.\<close>

definition numberSum :: "arithmetic \<Rightarrow> real list \<Rightarrow> real" where
  "numberSum ar xs = foldl (numAdd ar) 0 xs"

text \<open>
  The result the specification describes, from the cells of the consecutive edges: the sums
  of the fields, the summed duration divided by 60 and rounded to the nearest integer.
\<close>

definition metricsSpec ::
    "arithmetic \<Rightarrow> DistanceMatrixElement list \<Rightarrow> int list \<Rightarrow> OptimizationResult" where
  "metricsSpec ar cells route =
     \<lparr> orderedStops = map String route,
       totalDuration = round (numDiv ar (numberSum ar (map duration cells)) 60),
       totalDistance = numberSum ar (map distance cells),
       totalCost =
         \<lparr> cmin = numberSum ar (map (\<lambda>c. cmin (missingCostAsZero (cost c))) cells),
           cmax = numberSum ar (map (\<lambda>c. cmax (missingCostAsZero (cost c))) cells) \<rparr> \<rparr>"

section \<open>Concrete instances\<close>

text \<open>A cell of a given duration in seconds, with no distance and no cost information.\<close>

definition cell :: "real \<Rightarrow> DistanceMatrixElement" where
  "cell d = \<lparr> duration = d, distance = 0, cost = None \<rparr>"

text \<open>A cell with all three fields.\<close>

definition fullCell :: "real \<Rightarrow> real \<Rightarrow> real \<Rightarrow> real \<Rightarrow> DistanceMatrixElement" where
  "fullCell d l lo hi = \<lparr> duration = d, distance = l, cost = Some \<lparr> cmin = lo, cmax = hi \<rparr> \<rparr>"

text \<open>Three stops, \<open>0\<rightarrow>1 = 5\<close>, \<open>1\<rightarrow>2 = 5\<close>, \<open>0\<rightarrow>2 = 20\<close>, symmetric, zero diagonal.\<close>

definition scenario3 :: DistanceMatrix where
  "scenario3 = [[cell 0, cell 5, cell 20],
                [cell 5, cell 0, cell 5],
                [cell 20, cell 5, cell 0]]"

text \<open>Three stops, one minute between any two of them.\<close>

definition unit3 :: DistanceMatrix where
  "unit3 = [[cell 0, cell 60, cell 60],
            [cell 60, cell 0, cell 60],
            [cell 60, cell 60, cell 0]]"

text \<open>Three stops; the leg \<open>0\<rightarrow>2\<close> takes no time, the cheap tour is \<open>0, 2, 1, 0\<close>.\<close>

definition zeroLeg3 :: DistanceMatrix where
  "zeroLeg3 = [[cell 0, cell 600, cell 0],
               [cell 60, cell 0, cell 600],
               [cell 600, cell 60, cell 0]]"

text \<open>Two stops at the same place.\<close>

definition sameplace2 :: DistanceMatrix where
  "sameplace2 = [[cell 0, cell 0],
                 [cell 0, cell 0]]"

text \<open>Three rows of four cells.\<close>

definition nonsquare34 :: DistanceMatrix where
  "nonsquare34 = [[cell 0, cell 60, cell 120, cell 30],
                  [cell 60, cell 0, cell 60, cell 30],
                  [cell 120, cell 60, cell 0, cell 30]]"

text \<open>Three stops with distances, the leg \<open>1\<rightarrow>2\<close> without cost information.\<close>

definition costs3 :: DistanceMatrix where
  "costs3 = [[fullCell 0 0 0 0, fullCell 100 1000 2 3, fullCell 200 2000 4 6],
             [fullCell 100 1000 2 3, fullCell 0 0 0 0, \<lparr> duration = 110, distance = 1500, cost = None \<rparr>],
             [fullCell 200 2000 4 6, fullCell 150 1500 3 5, fullCell 0 0 0 0]]"

text \<open>
  Three stops whose legs \<open>0\<rightarrow>1\<close> and \<open>1\<rightarrow>2\<close> take the doubles nearest to 29.9 and 0.1 seconds
  and cost the doubles nearest to 0.1 and 0.2; the leg \<open>2\<rightarrow>0\<close> has no cost information.
\<close>

definition halves3 :: DistanceMatrix where
  "halves3 =
     [[fullCell 0 0 0 0,
       fullCell (binary64 (299 / 10)) 100 (binary64 (1 / 10)) (binary64 (1 / 10)),
       fullCell 0 0 0 0],
      [fullCell 0 0 0 0, fullCell 0 0 0 0,
       fullCell (binary64 (1 / 10)) 100 (binary64 (2 / 10)) (binary64 (2 / 10))],
      [\<lparr> duration = 0, distance = 50, cost = None \<rparr>, fullCell 0 0 0 0, fullCell 0 0 0 0]]"


text \<open>Four stops on which the greedy construction leaves a detour that 2-opt removes.\<close>

definition detour4 :: DistanceMatrix where
  "detour4 = [[cell 0, cell 60, cell 72, cell 300],
              [cell 60, cell 0, cell 60, cell 72],
              [cell 72, cell 60, cell 0, cell 60],
              [cell 300, cell 72, cell 60, cell 0]]"

section \<open>Well-formed inputs\<close>

text \<open>A matrix is square when every row has as many cells as the matrix has rows.\<close>

definition squareMatrix :: "DistanceMatrix \<Rightarrow> bool" where
  "squareMatrix m = list_all (\<lambda>row. length row = length m) m"

text \<open>A stop index lies in \<open>[0, n)\<close>.\<close>

definition stopIndex :: "DistanceMatrix \<Rightarrow> int \<Rightarrow> bool" where
  "stopIndex m i = (0 \<le> i \<and> i < int (length m))"

section \<open>Notions used in the proofs\<close>

text \<open>
  A state \<open>(bestRoute, improved)\<close> of the 2-opt loops is not worse than an earlier one: it
  is the same state, or its route is a permutation of the earlier route, both durations are
  defined, the later is not larger, and it is smaller when \<open>improved\<close> went from false to
  true.
\<close>

definition notWorse :: "DistanceMatrix \<Rightarrow> int list \<times> bool \<Rightarrow> int list \<times> bool \<Rightarrow> bool" where
  "notWorse m st st' =
     (st' = st \<or>
      (mset (fst st') = mset (fst st) \<and>
       (\<exists>t t'. calculateTotalDistance (fst st) m = Inr t \<and>
               calculateTotalDistance (fst st') m = Inr t' \<and>
               t' \<le> t \<and> (snd st' \<and> \<not> snd st \<longrightarrow> t' < t))))"


text \<open>A route that starts at \<open>s\<close> and ends with the closing return to \<open>s\<close>.\<close>

definition closedRoute :: "int \<Rightarrow> int list \<Rightarrow> bool" where
  "closedRoute s r = (\<exists>mid. r = s # mid @ [s])"


text \<open>The duration of a route as a number, \<open>0\<close> when it is not defined.\<close>

definition tourTotal :: "DistanceMatrix \<Rightarrow> int list \<Rightarrow> real" where
  "tourTotal m r = (case calculateTotalDistance r m of Inl e \<Rightarrow> 0 | Inr t \<Rightarrow> t)"

text \<open>The permutations of a route that are strictly shorter than it: the variant of 2-opt.\<close>

definition betterTours :: "DistanceMatrix \<Rightarrow> int list \<Rightarrow> int list set" where
  "betterTours m r = {r'. mset r' = mset r \<and> tourTotal m r' < tourTotal m r}"

section \<open>Route closing: no end and end equal to start\<close>

lemma permuteLeaf_null_start:
  "permuteLeaf m s None cur best = permuteLeaf m s (Some s) cur best"
  by (simp add: permuteLeaf_def Let_def cong: sum.case_cong)

lemma permute_cong_leaf:
  assumes "\<And>cur best. permuteLeaf m s e cur best = permuteLeaf m s e' cur best"
  shows "permute m s e arr cur best = permute m s e' arr cur best"
    and "permuteFrom m s e arr cur i best = permuteFrom m s e' arr cur i best"
  using assms
proof (induction m s e arr cur best and m s e arr cur i best rule: permute_permuteFrom.induct)
  case (1 matrix startIndex endIndex arr current best)
  then show ?case
    by (simp add: permute.simps [of _ _ _ arr])
next
  case (2 matrix startIndex endIndex arr current i best)
  show ?case
  proof (cases "i < length arr")
    case True
    have a: "permute matrix startIndex endIndex (take i arr @ drop (i + 1) arr) (current @ [arr ! i]) best
      = permute matrix startIndex e' (take i arr @ drop (i + 1) arr) (current @ [arr ! i]) best"
      using "2.IH"(1) [OF True] "2.prems" by simp
    show ?thesis
      using True a "2.IH"(2) [OF True] "2.prems"
      by (simp add: permuteFrom.simps [of _ _ _ arr current i] split: sum.splits)
  next
    case False
    then show ?thesis by (simp add: permuteFrom.simps [of _ _ _ arr current i])
  qed
qed

lemma bruteForce_null_start:
  "bruteForceOptimal m s None = bruteForceOptimal m s (Some s)"
  by (simp add: bruteForceOptimal_def permute_cong_leaf(1) [OF permuteLeaf_null_start])




section \<open>The dispatcher\<close>

text \<open>
  C6: the strategy depends on the stop count \<open>n = matrix.length\<close> alone: exhaustive search
  for \<open>n \<le> 7\<close>, the subset solver for \<open>8 \<le> n \<le> 10\<close>, nearest neighbour with 2-opt for
  \<open>n \<ge> 11\<close>; \<open>optimizeRoute\<close> returns exactly what the selected solver returns.
\<close>

theorem optimizeRoute_dispatch:
  "(length m \<le> 7 \<longrightarrow> optimizeRoute m s e = Some (bruteForceOptimal m s e)) \<and>
   (8 \<le> length m \<and> length m \<le> 10 \<longrightarrow> optimizeRoute m s e = heldKarpDP m s e) \<and>
   (11 \<le> length m \<longrightarrow> optimizeRoute m s e = nearestNeighbor2Opt m s e)"
  by (simp add: optimizeRoute_def)

theorem optimizeRoute_dispatch_witness:
  "optimizeRoute (replicate 7 []) 0 None = Some (bruteForceOptimal (replicate 7 []) 0 None) \<and>
   optimizeRoute (replicate 8 []) 0 None = heldKarpDP (replicate 8 []) 0 None \<and>
   optimizeRoute (replicate 10 []) 0 None = heldKarpDP (replicate 10 []) 0 None \<and>
   optimizeRoute (replicate 11 []) 0 None = nearestNeighbor2Opt (replicate 11 []) 0 None"
  using optimizeRoute_dispatch [of "replicate 7 []" 0 None]
    optimizeRoute_dispatch [of "replicate 8 []" 0 None]
    optimizeRoute_dispatch [of "replicate 10 []" 0 None]
    optimizeRoute_dispatch [of "replicate 11 []" 0 None]
  by simp

section \<open>A single stop\<close>

text \<open>
  C10: on a 1x1 matrix with start \<open>0\<close> and \<open>endIndex\<close> null or \<open>0\<close>, \<open>optimizeRoute\<close> raises
  nothing: exhaustive search returns \<open>orderedStops = ["0", "0"]\<close>, and the totals are folded
  from the one diagonal cell \<open>matrix[0][0]\<close>.
\<close>

theorem optimizeRoute_single_stop:
  "optimizeRoute [[c]] 0 None =
     Some (Inr \<lparr> orderedStops = [''0'', ''0''],
                  totalDuration = Math_round (duration c / 60),
                  totalDistance = distance c,
                  totalCost = (case cost c of
                                 None \<Rightarrow> \<lparr> cmin = 0, cmax = 0 \<rparr>
                               | Some k \<Rightarrow> \<lparr> cmin = cmin k, cmax = cmax k \<rparr>) \<rparr>) \<and>
   optimizeRoute [[c]] 0 (Some 0) = optimizeRoute [[c]] 0 None"
  by (simp add: optimizeRoute_def bruteForce_null_start [symmetric] bruteForceOptimal_def indices_def
      permute.simps permuteLeaf_def cellAt_def calculateRouteMetrics_def exact_def String_def
      digits.simps split: option.splits)

theorem optimizeRoute_single_stop_witness:
  "optimizeRoute [[fullCell 90 7 1 2]] 0 None =
     Some (Inr \<lparr> orderedStops = [''0'', ''0''], totalDuration = 2, totalDistance = 7,
                  totalCost = \<lparr> cmin = 1, cmax = 2 \<rparr> \<rparr>) \<and>
   optimizeRoute [[fullCell 90 7 1 2]] 0 (Some 0) = optimizeRoute [[fullCell 90 7 1 2]] 0 None"
  using optimizeRoute_single_stop [of "fullCell 90 7 1 2"]
  by (simp add: fullCell_def Math_round_def)

section \<open>The metrics reducer\<close>

lemma Math_round_eq_round: "Math_round x = round x"
  by (simp add: Math_round_def round_def)

lemma metricsLoop_sums:
  assumes "map (\<lambda>(a, b). cellAt m a b) (routeEdges route) = map Inr cells"
    and zero: "\<And>x. numAdd ar x 0 = x"
  shows "metricsLoop ar m route (d0, l0, mn0, mx0) =
           Inr (foldl (numAdd ar) d0 (map duration cells),
                foldl (numAdd ar) l0 (map distance cells),
                foldl (numAdd ar) mn0 (map (\<lambda>c. cmin (missingCostAsZero (cost c))) cells),
                foldl (numAdd ar) mx0 (map (\<lambda>c. cmax (missingCostAsZero (cost c))) cells))"
  using assms(1)
proof (induction route arbitrary: cells d0 l0 mn0 mx0 rule: induct_list012)
  case 1
  then show ?case by (simp add: routeEdges_def)
next
  case (2 a)
  then show ?case by (simp add: routeEdges_def)
next
  case (3 a b rest)
  from "3.prems" obtain c cs where cells: "cells = c # cs" and c: "cellAt m a b = Inr c"
    and cs: "map (\<lambda>(a, b). cellAt m a b) (routeEdges (b # rest)) = map Inr cs"
    by (cases cells) (auto simp: routeEdges_def)
  show ?case
    using "3.IH"(2) [OF cs] c cells
    by (cases "cost c") (simp_all add: missingCostAsZero_def zero)
qed

text \<open>
  C8: for a route whose consecutive edges all have a cell in the matrix, \<open>calculateRouteMetrics\<close>
  returns the result of the specification: \<open>totalDuration\<close> is the sum of the cells' durations
  divided by 60 and rounded to the nearest integer, \<open>totalDistance\<close> the sum of their distances,
  and \<open>totalCost\<close> the sums of \<open>cost.min\<close> and \<open>cost.max\<close>, a cell without cost counting as
  \<open>{min: 0, max: 0}\<close> and raising nothing. The sums and the quotient are those of the
  arithmetic the reducer runs in, which may be any in which adding \<open>0\<close> changes nothing:
  the exact one, and the doubles of the language.
\<close>

theorem calculateRouteMetrics_fold:
  assumes "map (\<lambda>(a, b). cellAt m a b) (routeEdges route) = map Inr cells"
    and "\<And>x. numAdd ar x 0 = x"
  shows "calculateRouteMetrics ar route m = Inr (metricsSpec ar cells route)"
  by (simp add: calculateRouteMetrics_def metricsLoop_sums [OF assms] metricsSpec_def
      numberSum_def Math_round_eq_round)

theorem calculateRouteMetrics_fold_witness:
  "map (\<lambda>(a, b). cellAt costs3 a b) (routeEdges [0, 1, 2, 0]) =
     map Inr [fullCell 100 1000 2 3, \<lparr> duration = 110, distance = 1500, cost = None \<rparr>,
              fullCell 200 2000 4 6] \<and>
   calculateRouteMetrics exact [0, 1, 2, 0] costs3 =
     Inr \<lparr> orderedStops = [''0'', ''1'', ''2'', ''0''], totalDuration = 7,
           totalDistance = 4500, totalCost = \<lparr> cmin = 6, cmax = 9 \<rparr> \<rparr> \<and>
   map (\<lambda>(a, b). cellAt halves3 a b) (routeEdges [0, 1, 2, 0]) =
     map Inr [fullCell (binary64 (299 / 10)) 100 (binary64 (1 / 10)) (binary64 (1 / 10)),
              fullCell (binary64 (1 / 10)) 100 (binary64 (2 / 10)) (binary64 (2 / 10)),
              \<lparr> duration = 0, distance = 50, cost = None \<rparr>] \<and>
   calculateRouteMetrics ieee [0, 1, 2, 0] halves3 =
     Inr \<lparr> orderedStops = [''0'', ''1'', ''2'', ''0''], totalDuration = 1,
           totalDistance = 250,
           totalCost = \<lparr> cmin = 1351079888211149 / 4503599627370496,
                         cmax = 1351079888211149 / 4503599627370496 \<rparr> \<rparr> \<and>
   calculateRouteMetrics exact [0, 1, 2, 0] halves3 =
     Inr \<lparr> orderedStops = [''0'', ''1'', ''2'', ''0''], totalDuration = 0,
           totalDistance = 250,
           totalCost = \<lparr> cmin = 10808639105689191 / 36028797018963968,
                         cmax = 10808639105689191 / 36028797018963968 \<rparr> \<rparr>"
proof -
  have h: "map (\<lambda>(a, b). cellAt costs3 a b) (routeEdges [0, 1, 2, 0]) =
     map Inr [fullCell 100 1000 2 3, \<lparr> duration = 110, distance = 1500, cost = None \<rparr>,
              fullCell 200 2000 4 6]"
    by (simp add: routeEdges_def cellAt_def costs3_def)
  have z: "numAdd exact x 0 = x" for x
    by (simp add: exact_def)
  have s: "metricsSpec exact
      [fullCell 100 1000 2 3, \<lparr> duration = 110, distance = 1500, cost = None \<rparr>,
       fullCell 200 2000 4 6] [0, 1, 2, 0] =
     \<lparr> orderedStops = [''0'', ''1'', ''2'', ''0''], totalDuration = 7,
       totalDistance = 4500, totalCost = \<lparr> cmin = 6, cmax = 9 \<rparr> \<rparr>"
    by code_simp
  have h': "map (\<lambda>(a, b). cellAt halves3 a b) (routeEdges [0, 1, 2, 0]) =
     map Inr [fullCell (binary64 (299 / 10)) 100 (binary64 (1 / 10)) (binary64 (1 / 10)),
              fullCell (binary64 (1 / 10)) 100 (binary64 (2 / 10)) (binary64 (2 / 10)),
              \<lparr> duration = 0, distance = 50, cost = None \<rparr>]"
    by (simp add: routeEdges_def cellAt_def halves3_def)
  have z': "numAdd ieee x 0 = x" for x
    by (simp add: ieee_def)
  have s': "metricsSpec ieee
      [fullCell (binary64 (299 / 10)) 100 (binary64 (1 / 10)) (binary64 (1 / 10)),
       fullCell (binary64 (1 / 10)) 100 (binary64 (2 / 10)) (binary64 (2 / 10)),
       \<lparr> duration = 0, distance = 50, cost = None \<rparr>] [0, 1, 2, 0] =
     \<lparr> orderedStops = [''0'', ''1'', ''2'', ''0''], totalDuration = 1,
       totalDistance = 250,
       totalCost = \<lparr> cmin = 1351079888211149 / 4503599627370496,
                     cmax = 1351079888211149 / 4503599627370496 \<rparr> \<rparr>"
    by code_simp
  have s'': "metricsSpec exact
      [fullCell (binary64 (299 / 10)) 100 (binary64 (1 / 10)) (binary64 (1 / 10)),
       fullCell (binary64 (1 / 10)) 100 (binary64 (2 / 10)) (binary64 (2 / 10)),
       \<lparr> duration = 0, distance = 50, cost = None \<rparr>] [0, 1, 2, 0] =
     \<lparr> orderedStops = [''0'', ''1'', ''2'', ''0''], totalDuration = 0,
       totalDistance = 250,
       totalCost = \<lparr> cmin = 10808639105689191 / 36028797018963968,
                     cmax = 10808639105689191 / 36028797018963968 \<rparr> \<rparr>"
    by code_simp
  show ?thesis
    using h h' calculateRouteMetrics_fold [OF h z] calculateRouteMetrics_fold [OF h' z']
      calculateRouteMetrics_fold [OF h' z] s s' s''
    by simp
qed

section \<open>2-opt\<close>

lemma mset_twoOptSwap: "i \<le> j + 1 \<Longrightarrow> mset (twoOptSwap r i j) = mset r"
proof -
  assume ij: "i \<le> j + 1"
  have "take i r @ take (j + 1 - i) (drop i r) = take (j + 1) r"
    using ij by (metis add_diff_inverse_nat le_add_diff_inverse not_less take_add)
  then have "mset (take i r) + mset (take (j + 1 - i) (drop i r)) = mset (take (j + 1) r)"
    by (metis mset_append)
  then have "mset (twoOptSwap r i j) = mset (take (j + 1) r) + mset (drop (j + 1) r)"
    by (simp add: twoOptSwap_def slice_def)
  then show ?thesis
    by (metis append_take_drop_id mset_append)
qed


lemma notWorse_refl: "notWorse m st st"
  by (simp add: notWorse_def)

lemma notWorse_trans: "notWorse m a b \<Longrightarrow> notWorse m b c \<Longrightarrow> notWorse m a c"
  unfolding notWorse_def by (elim disjE conjE exE; force)

lemma twoOptStep_notWorse:
  "i \<le> j + 1 \<Longrightarrow> twoOptStep m i j st = Inr st' \<Longrightarrow> notWorse m st st'"
  by (auto simp: twoOptStep_def Let_def notWorse_def mset_twoOptSwap split: sum.splits if_splits)

lemma foldE_notWorse:
  assumes "\<And>x s s'. x \<in> set xs \<Longrightarrow> f x s = Inr s' \<Longrightarrow> notWorse m s s'"
    and "foldE f xs s = Inr s'"
  shows "notWorse m s s'"
  using assms
proof (induction xs arbitrary: s)
  case Nil
  then show ?case by (simp add: notWorse_refl)
next
  case (Cons x xs)
  from Cons.prems(2) obtain s1 where s1: "f x s = Inr s1" and rest: "foldE f xs s1 = Inr s'"
    by (auto split: sum.splits)
  have "notWorse m s s1" using Cons.prems(1) [of x s s1] s1 by simp
  moreover have "notWorse m s1 s'"
  proof (rule Cons.IH [OF _ rest])
    fix y u u' assume "y \<in> set xs" "f y u = Inr u'"
    then show "notWorse m u u'" using Cons.prems(1) [of y u u'] by simp
  qed
  ultimately show ?case by (rule notWorse_trans)
qed

lemma twoOptPass_notWorse:
  assumes "twoOptPass m r = Inr st'"
  shows "notWorse m (r, False) st'"
proof (rule foldE_notWorse [OF _ assms [unfolded twoOptPass_def]])
  fix i s s'
  assume "i \<in> set [1..<length r - 2]"
    and inner: "foldE (twoOptStep m i) [i + 1..<length r - 1] s = Inr s'"
  show "notWorse m s s'"
  proof (rule foldE_notWorse [OF _ inner])
    fix j t t'
    assume "j \<in> set [i + 1..<length r - 1]" and "twoOptStep m i j t = Inr t'"
    then show "notWorse m t t'"
      using twoOptStep_notWorse [of i j m t t'] by simp
  qed
qed

lemma finite_betterTours: "finite (betterTours m r)"
  by (rule finite_subset [OF _ mset_eq_finite [of r]]) (auto simp: betterTours_def)

lemma betterTours_decrease:
  assumes "mset r' = mset r" and "tourTotal m r' < tourTotal m r"
  shows "card (betterTours m r') < card (betterTours m r)"
proof (rule psubset_card_mono [OF finite_betterTours])
  have "r' \<in> betterTours m r" "r' \<notin> betterTours m r'"
    using assms by (auto simp: betterTours_def)
  moreover have "betterTours m r' \<subseteq> betterTours m r"
    using assms by (auto simp: betterTours_def)
  ultimately show "betterTours m r' \<subset> betterTours m r" by blast
qed

text \<open>A pass that sets \<open>improved\<close> ends on a strictly shorter permutation of its route.\<close>

lemma twoOptPass_improved:
  assumes "twoOptPass m r = Inr (r', True)"
  shows "mset r' = mset r \<and> tourTotal m r' < tourTotal m r"
  using twoOptPass_notWorse [OF assms]
  by (auto simp: notWorse_def tourTotal_def)

text \<open>
  The \<open>while\<close> loop ends, by induction on the number of strictly shorter permutations of the
  current route; what it returns is not worse than what it started from.
\<close>

lemma twoOptImprove_returns:
  "\<exists>res. twoOptImprove r m = Some res \<and>
     (\<forall>r'. res = Inr r' \<longrightarrow> notWorse m (r, False) (r', False))"
proof (induction "card (betterTours m r)" arbitrary: r rule: less_induct)
  case less
  show ?case
  proof (cases "twoOptPass m r")
    case (Inl e)
    then show ?thesis by (subst twoOptImprove.simps) simp
  next
    case (Inr st)
    obtain r1 imp where st: "st = (r1, imp)" by (cases st)
    show ?thesis
    proof (cases imp)
      case False
      have "notWorse m (r, False) (r1, False)"
        using twoOptPass_notWorse [of m r] Inr st False by simp
      then show ?thesis
        using Inr st False by (subst twoOptImprove.simps) simp
    next
      case True
      have p: "twoOptPass m r = Inr (r1, True)" using Inr st True by simp
      have 1: "notWorse m (r, False) (r1, True)" using twoOptPass_notWorse [OF p] .
      have "card (betterTours m r1) < card (betterTours m r)"
        using twoOptPass_improved [OF p] betterTours_decrease by blast
      from less [OF this] obtain res where res: "twoOptImprove r1 m = Some res"
        and q: "\<forall>r'. res = Inr r' \<longrightarrow> notWorse m (r1, False) (r', False)" by blast
      have "twoOptImprove r m = Some res"
        using p res by (subst twoOptImprove.simps) simp
      moreover have "\<forall>r'. res = Inr r' \<longrightarrow> notWorse m (r, False) (r', False)"
      proof (intro allI impI)
        fix r' assume "res = Inr r'"
        then have 2: "notWorse m (r1, False) (r', False)" using q by blast
        from 1 2 show "notWorse m (r, False) (r', False)"
          unfolding notWorse_def by (elim disjE conjE exE; force)
      qed
      ultimately show ?thesis by blast
    qed
  qed
qed

text \<open>
  C9: \<open>twoOptImprove\<close> terminates on every route and every matrix (it returns a route or
  raises): a pass that accepts a swap ends on a strictly shorter permutation of the route
  (\<open>twoOptPass_improved\<close>), a route has finitely many permutations, and a pass that accepts
  none ends the loop.
\<close>

theorem twoOptImprove_terminates:
  "\<exists>res. twoOptImprove route m = Some res"
  using twoOptImprove_returns [of route m] by blast

theorem twoOptImprove_terminates_witness:
  "(\<exists>res. twoOptImprove [0, 1, 2, 3, 0] detour4 = Some res) \<and>
   twoOptImprove [0, 1, 2, 3, 0] detour4 = Some (Inr [0, 1, 3, 2, 0])"
proof -
  have "twoOptImprove [0, 1, 2, 3, 0] detour4 = Some (Inr [0, 1, 3, 2, 0])"
    by code_simp
  then show ?thesis
    using twoOptImprove_terminates [of "[0, 1, 2, 3, 0]" detour4] by simp
qed

text \<open>
  C7: the route that the 2-opt phase returns has a total duration (the sum of the directed
  edge durations along consecutive positions) not larger than that of the route it started
  from; this holds for every starting route whose duration is defined, those of the
  nearest-neighbour construction among them, and every matrix.
\<close>

theorem twoOpt_never_increases:
  assumes "twoOptImprove route m = Some (Inr optimized)"
    and "calculateTotalDistance route m = Inr t"
  shows "\<exists>t'. calculateTotalDistance optimized m = Inr t' \<and> t' \<le> t"
  using twoOptImprove_returns [of route m] assms
  by (auto simp: notWorse_def)

theorem twoOpt_never_increases_witness:
  "nearestNeighborGreedy detour4 0 None = Some (Inr [0, 1, 2, 3, 0]) \<and>
   twoOptImprove [0, 1, 2, 3, 0] detour4 = Some (Inr [0, 1, 3, 2, 0]) \<and>
   calculateTotalDistance [0, 1, 2, 3, 0] detour4 = Inr 480 \<and>
   calculateTotalDistance [0, 1, 3, 2, 0] detour4 = Inr 264 \<and>
   (\<exists>t'. calculateTotalDistance [0, 1, 3, 2, 0] detour4 = Inr t' \<and> t' \<le> 480)"
proof -
  have c: "nearestNeighborGreedy detour4 0 None = Some (Inr [0, 1, 2, 3, 0])"
    by code_simp
  have h1: "twoOptImprove [0, 1, 2, 3, 0] detour4 = Some (Inr [0, 1, 3, 2, 0])"
    by code_simp
  have h2: "calculateTotalDistance [0, 1, 2, 3, 0] detour4 = Inr 480"
    by code_simp
  have h3: "calculateTotalDistance [0, 1, 3, 2, 0] detour4 = Inr 264"
    by code_simp
  show ?thesis
    using twoOpt_never_increases [OF h1 h2] c h1 h2 h3 by simp
qed

section \<open>Exhaustive search and the subset solver on concrete instances\<close>

text \<open>
  C2: on the instance \<open>n = 3\<close>, start \<open>0\<close>, end \<open>2\<close>, durations \<open>0\<rightarrow>1 = 5\<close>, \<open>1\<rightarrow>2 = 5\<close>,
  \<open>0\<rightarrow>2 = 20\<close>, symmetric, zero diagonal, the specification expects
  \<open>orderedStops = ["0", "1", "2"]\<close>. \<open>optimizeRoute\<close> dispatches to exhaustive search, which
  permutes all stops but the start, the end among them, and then pushes the end once more:
  it returns \<open>["0", "1", "2", "2"]\<close>.
\<close>

theorem exhaustive_scenario_repeats_end:
  "optimizeRoute scenario3 0 (Some 2) =
     Some (Inr \<lparr> orderedStops = [''0'', ''1'', ''2'', ''2''], totalDuration = 0,
                  totalDistance = 0, totalCost = \<lparr> cmin = 0, cmax = 0 \<rparr> \<rparr>)"
  by code_simp

text \<open>
  C1: with a distinct fixed end the specification expects a route of length \<open>n\<close> with no
  repeated stop. On three stops one minute apart, start \<open>0\<close> and end \<open>1\<close>, the selected
  solver (exhaustive search) returns a route of length \<open>4 = n + 1\<close> in which stop \<open>1\<close>
  stands twice, and so does the subset solver; the heuristic, which sets the end aside before
  it builds the route, returns a route of length \<open>3\<close>.
\<close>

theorem exhaustive_open_route_length:
  "map_option (map_sum id (\<lambda>r. (orderedStops r, length (orderedStops r))))
     (optimizeRoute unit3 0 (Some 1)) = Some (Inr ([''0'', ''2'', ''1'', ''1''], 4)) \<and>
   map_option (map_sum id orderedStops) (heldKarpDP unit3 0 (Some 1)) =
     Some (Inr [''0'', ''2'', ''1'', ''1'']) \<and>
   map_option (map_sum id orderedStops) (nearestNeighbor2Opt unit3 0 (Some 1)) =
     Some (Inr [''0'', ''2'', ''1''])"
  by code_simp

text \<open>
  C4: the specification expects exhaustive search and the subset solver to agree on
  \<open>totalDuration\<close>. On three stops where the leg \<open>0\<rightarrow>2\<close> takes no time, exhaustive search
  finds the tour of 2 minutes and the subset solver returns one of 30 minutes: it reads the
  stored duration \<open>0\<close> of the path \<open>0\<rightarrow>2\<close> as \<open>Infinity\<close>. On two stops at the same place
  exhaustive search returns 0 minutes and the subset solver raises.
\<close>

theorem exact_solvers_disagree:
  "map_sum id totalDuration (bruteForceOptimal zeroLeg3 0 None) = Inr 2 \<and>
   map_option (map_sum id totalDuration) (heldKarpDP zeroLeg3 0 None) = Some (Inr 30) \<and>
   map_sum id totalDuration (bruteForceOptimal sameplace2 0 None) = Inr 0 \<and>
   heldKarpDP sameplace2 0 None = Some (Inl TypeError)"
  by code_simp

section \<open>The heuristic on valid inputs\<close>

lemma foldE_Cons_Inr:
  assumes "foldE f (x # xs) s = Inr r"
  obtains s1 where "f x s = Inr s1" and "foldE f xs s1 = Inr r"
  using assms by (cases "f x s") simp_all

lemma nearestStep_Fin:
  "nearestStep m c y (x0, Fin a) = Inr st \<Longrightarrow> \<exists>x1 a1. st = (x1, Fin a1) \<and> (x1 = x0 \<or> x1 = y)"
  by (auto simp: nearestStep_def split: sum.splits if_splits)

lemma nearestStep_Infinity:
  "nearestStep m c y (x0, Infinity) = Inr st \<Longrightarrow> \<exists>a1. st = (y, Fin a1)"
  by (auto simp: nearestStep_def split: sum.splits if_splits)

lemma nearestStep_finite:
  "foldE (nearestStep m c) u (x0, Fin a) = Inr (x, d) \<Longrightarrow> x = x0 \<or> x \<in> set u"
proof (induction u arbitrary: x0 a)
  case Nil
  then show ?case by simp
next
  case (Cons y ys)
  from Cons.prems obtain s1 where
      step: "nearestStep m c y (x0, Fin a) = Inr s1"
    and rest: "foldE (nearestStep m c) ys s1 = Inr (x, d)"
    by (rule foldE_Cons_Inr)
  from nearestStep_Fin [OF step] obtain x1 a1 where
    s1: "s1 = (x1, Fin a1)" and x1: "x1 = x0 \<or> x1 = y" by blast
  from Cons.IH [OF rest [unfolded s1]] x1 show ?case by auto
qed

lemma nearest_member:
  assumes "foldE (nearestStep m c) u (x0, Infinity) = Inr (x, d)" and "u \<noteq> []"
  shows "x \<in> set u"
proof -
  from assms(2) obtain y ys where u: "u = y # ys" by (cases u) auto
  from assms(1) [unfolded u] obtain s1 where
      step: "nearestStep m c y (x0, Infinity) = Inr s1"
    and rest: "foldE (nearestStep m c) ys s1 = Inr (x, d)"
    by (rule foldE_Cons_Inr)
  from nearestStep_Infinity [OF step] obtain a1 where s1: "s1 = (y, Fin a1)" by blast
  from nearestStep_finite [OF rest [unfolded s1]] u show ?thesis by auto
qed

lemma cellAt_defined:
  "squareMatrix m \<Longrightarrow> stopIndex m a \<Longrightarrow> stopIndex m b \<Longrightarrow> \<exists>c. cellAt m a b = Inr c"
  by (auto simp: cellAt_def stopIndex_def squareMatrix_def list_all_length)

lemma sumEdges_defined:
  assumes "squareMatrix m"
  shows "\<forall>x \<in> set r. stopIndex m x \<Longrightarrow> \<exists>t. sumEdges m r acc = Inr t"
proof (induction r arbitrary: acc rule: induct_list012)
  case 1
  then show ?case by simp
next
  case (2 a)
  then show ?case by simp
next
  case (3 a b rest)
  from cellAt_defined [OF assms, of a b] "3.prems" obtain c where "cellAt m a b = Inr c"
    by auto
  then show ?case using "3.IH"(2) [of "acc + duration c"] "3.prems" by simp
qed

lemma metricsLoop_defined:
  assumes "squareMatrix m"
  shows "\<forall>x \<in> set r. stopIndex m x \<Longrightarrow> \<exists>res. metricsLoop ar m r acc = Inr res"
proof (induction r arbitrary: acc rule: induct_list012)
  case 1
  then show ?case by (cases acc rule: prod_cases4) simp
next
  case (2 a)
  then show ?case by (cases acc rule: prod_cases4) simp
next
  case (3 a b rest)
  obtain dur dis mn mx where acc: "acc = (dur, dis, mn, mx)" by (rule prod_cases4)
  from cellAt_defined [OF assms, of a b] "3.prems" obtain c where "cellAt m a b = Inr c"
    by auto
  then show ?case using "3.IH"(2) "3.prems" acc by simp
qed

lemma foldE_invariant:
  assumes "I s" and "\<And>x s. x \<in> set xs \<Longrightarrow> I s \<Longrightarrow> \<exists>s'. f x s = Inr s' \<and> I s'"
  shows "\<exists>s'. foldE f xs s = Inr s' \<and> I s'"
  using assms
proof (induction xs arbitrary: s)
  case Nil
  then show ?case by simp
next
  case (Cons x xs)
  from Cons.prems(2) [of x s] Cons.prems(1) obtain s1 where s1: "f x s = Inr s1" "I s1"
    by auto
  have "\<exists>s'. foldE f xs s1 = Inr s' \<and> I s'"
  proof (rule Cons.IH [OF s1(2)])
    fix y u assume "y \<in> set xs" "I u"
    then show "\<exists>s'. f y u = Inr s' \<and> I s'" using Cons.prems(2) [of y u] by simp
  qed
  then show ?case using s1 by simp
qed

lemma nearest_defined:
  assumes "squareMatrix m" and "stopIndex m c" and "\<forall>x \<in> set u. stopIndex m x"
  shows "\<exists>best. foldE (nearestStep m c) u b0 = Inr best"
proof -
  have "\<exists>s'. foldE (nearestStep m c) u b0 = Inr s' \<and> True"
  proof (rule foldE_invariant [where I = "\<lambda>_. True"])
    fix x s assume "x \<in> set u"
    then obtain cl where "cellAt m c x = Inr cl"
      using cellAt_defined [OF assms(1,2), of x] assms(3) by auto
    then show "\<exists>s'. nearestStep m c x s = Inr s' \<and> True"
      by (simp add: nearestStep_def)
  qed simp
  then show ?thesis by simp
qed

lemma nnLoop_valid:
  assumes "squareMatrix m"
  shows "stopIndex m c \<Longrightarrow> \<forall>x \<in> set u. stopIndex m x \<Longrightarrow> distinct u \<Longrightarrow>
    \<exists>ys. nnLoop m u r c = Some (Inr (r @ ys)) \<and> mset ys = mset u"
proof (induction "length u" arbitrary: u r c rule: less_induct)
  case less
  show ?case
  proof (cases "u = []")
    case True
    then show ?thesis by (subst nnLoop.simps) simp
  next
    case False
    from nearest_defined [OF assms less.prems(1,2)] obtain best where
      b: "foldE (nearestStep m c) u (- 1, Infinity) = Inr best" by blast
    obtain x d where best: "best = (x, d)" by (cases best)
    have xu: "x \<in> set u" using nearest_member [of m c u "- 1" x d] b best False by simp
    then have len: "length (removeAll x u) < length u" by (rule length_removeAll_less)
    have "stopIndex m x" "\<forall>y \<in> set (removeAll x u). stopIndex m y" "distinct (removeAll x u)"
      using xu less.prems by (auto simp: distinct_removeAll)
    from less.hyps [OF len this, of "r @ [x]"] obtain ys where
      ys: "nnLoop m (removeAll x u) (r @ [x]) x = Some (Inr ((r @ [x]) @ ys))"
      and ms: "mset ys = mset (removeAll x u)" by blast
    have "nnLoop m u r c = Some (Inr (r @ (x # ys)))"
      using False b best ys by (subst nnLoop.simps) simp
    moreover have "mset (x # ys) = mset u"
      using ms xu less.prems(3) by (simp add: distinct_remove1_removeAll [symmetric])
    ultimately show ?thesis by blast
  qed
qed


lemma indices_stopIndex: "\<forall>x \<in> set (indices (length m)). stopIndex m x"
  by (auto simp: indices_def stopIndex_def)

lemma distinct_indices: "distinct (indices k)"
  by (simp add: indices_def distinct_map inj_on_def)

text \<open>
  On a square matrix with start and end in range the construction returns the start, then a
  permutation of the other stops (the fixed end set aside), then the closing stop.
\<close>

lemma nearestNeighborGreedy_valid:
  assumes "squareMatrix m" and "stopIndex m s" and "e = None \<or> stopIndex m (the e)"
  shows "\<exists>ys. nearestNeighborGreedy m s e =
            Some (Inr ([s] @ ys @ [if e \<noteq> None \<and> e \<noteq> Some s then the e else s])) \<and>
          mset ys = mset (if e \<noteq> None \<and> e \<noteq> Some s
                          then removeAll (the e) (removeAll s (indices (length m)))
                          else removeAll s (indices (length m)))"
proof -
  define u where "u = (if e \<noteq> None \<and> e \<noteq> Some s
                       then removeAll (the e) (removeAll s (indices (length m)))
                       else removeAll s (indices (length m)))"
  have "\<forall>x \<in> set u. stopIndex m x" "distinct u"
    using indices_stopIndex [of m] distinct_indices [of "length m"]
    by (auto simp: u_def distinct_removeAll)
  from nnLoop_valid [OF assms(1,2) this, of "[s]"] obtain ys where
    ys: "nnLoop m u [s] s = Some (Inr ([s] @ ys))" and ms: "mset ys = mset u" by blast
  have "nearestNeighborGreedy m s e =
      Some (Inr ([s] @ ys @ [if e \<noteq> None \<and> e \<noteq> Some s then the e else s]))"
    using ys by (auto simp: nearestNeighborGreedy_def Let_def u_def)
  then show ?thesis using ms u_def by auto
qed

lemma twoOptStep_valid:
  assumes "squareMatrix m" and "\<forall>x \<in> set (fst st). stopIndex m x" and "i \<le> j + 1"
  shows "\<exists>st'. twoOptStep m i j st = Inr st' \<and> mset (fst st') = mset (fst st)"
proof -
  have "set (twoOptSwap (fst st) i j) = set (fst st)"
    using mset_twoOptSwap [OF assms(3), of "fst st"] by (metis mset_eq_setD)
  then obtain t1 where t1: "calculateTotalDistance (twoOptSwap (fst st) i j) m = Inr t1"
    using sumEdges_defined [OF assms(1), of "twoOptSwap (fst st) i j" 0] assms(2)
    by (auto simp: calculateTotalDistance_def)
  obtain t2 where t2: "calculateTotalDistance (fst st) m = Inr t2"
    using sumEdges_defined [OF assms(1), of "fst st" 0] assms(2)
    by (auto simp: calculateTotalDistance_def)
  show ?thesis
    using t1 t2 mset_twoOptSwap [OF assms(3), of "fst st"]
    by (cases st) (auto simp: twoOptStep_def Let_def)
qed

lemma twoOptPass_valid:
  assumes "squareMatrix m" and "\<forall>x \<in> set r. stopIndex m x"
  shows "\<exists>st. twoOptPass m r = Inr st"
proof -
  let ?I = "\<lambda>st :: int list \<times> bool. mset (fst st) = mset r"
  have valid: "\<forall>x \<in> set (fst st). stopIndex m x" if "?I st" for st :: "int list \<times> bool"
    using that assms(2) by (metis mset_eq_setD)
  have "\<exists>st. foldE (\<lambda>i. foldE (twoOptStep m i) [i + 1 ..< length r - 1])
                [1 ..< length r - 2] (r, False) = Inr st \<and> ?I st"
  proof (rule foldE_invariant [where I = ?I])
    show "?I (r, False)" by simp
  next
    fix i s assume "i \<in> set [1 ..< length r - 2]" and s: "?I s"
    show "\<exists>s'. foldE (twoOptStep m i) [i + 1 ..< length r - 1] s = Inr s' \<and> ?I s'"
    proof (rule foldE_invariant [where I = ?I, OF s])
      fix j t assume j: "j \<in> set [i + 1 ..< length r - 1]" and t: "?I t"
      from j have "i \<le> j + 1" by simp
      from twoOptStep_valid [OF assms(1) valid [OF t] this] t
      show "\<exists>s'. twoOptStep m i j t = Inr s' \<and> ?I s'" by auto
    qed
  qed
  then show ?thesis by (auto simp: twoOptPass_def)
qed

lemma twoOptImprove_valid:
  assumes "squareMatrix m"
  shows "\<forall>x \<in> set r. stopIndex m x \<Longrightarrow> \<exists>r'. twoOptImprove r m = Some (Inr r')"
proof (induction "card (betterTours m r)" arbitrary: r rule: less_induct)
  case less
  from twoOptPass_valid [OF assms less.prems] obtain st where p: "twoOptPass m r = Inr st"
    by blast
  obtain r1 imp where st: "st = (r1, imp)" by (cases st)
  show ?case
  proof (cases imp)
    case False
    then show ?thesis using p st by (subst twoOptImprove.simps) simp
  next
    case True
    then have p1: "twoOptPass m r = Inr (r1, True)" using p st by simp
    from twoOptPass_improved [OF p1] have ms: "mset r1 = mset r"
      and lt: "tourTotal m r1 < tourTotal m r" by auto
    have "\<forall>x \<in> set r1. stopIndex m x" using ms less.prems by (metis mset_eq_setD)
    from less.hyps [OF betterTours_decrease [OF ms lt] this] obtain r' where
      "twoOptImprove r1 m = Some (Inr r')" by blast
    then show ?thesis using p1 by (subst twoOptImprove.simps) simp
  qed
qed

text \<open>
  On a square matrix with start and end in range the heuristic runs through: the
  construction returns a route, 2-opt returns a route that is not longer, and the metrics
  reducer returns a result.
\<close>

lemma nearestNeighbor2Opt_valid:
  assumes "squareMatrix m" and "stopIndex m s" and "e = None \<or> stopIndex m (the e)"
  shows "\<exists>route optimized t t' res.
           nearestNeighborGreedy m s e = Some (Inr route) \<and>
           twoOptImprove route m = Some (Inr optimized) \<and>
           calculateTotalDistance route m = Inr t \<and>
           calculateTotalDistance optimized m = Inr t' \<and> t' \<le> t \<and>
           nearestNeighbor2Opt m s e = Some (Inr res)"
proof -
  from nearestNeighborGreedy_valid [OF assms] obtain ys where
    g: "nearestNeighborGreedy m s e =
          Some (Inr ([s] @ ys @ [if e \<noteq> None \<and> e \<noteq> Some s then the e else s]))"
    and ms: "mset ys = mset (if e \<noteq> None \<and> e \<noteq> Some s
                          then removeAll (the e) (removeAll s (indices (length m)))
                          else removeAll s (indices (length m)))" by blast
  define route where "route = [s] @ ys @ [if e \<noteq> None \<and> e \<noteq> Some s then the e else s]"
  have "set ys \<subseteq> set (indices (length m))"
    using mset_eq_setD [OF ms] by (auto split: if_splits)
  then have v: "\<forall>x \<in> set route. stopIndex m x"
    using assms(2,3) indices_stopIndex [of m] by (auto simp: route_def)
  from twoOptImprove_valid [OF assms(1) v] obtain optimized where
    o: "twoOptImprove route m = Some (Inr optimized)" by blast
  from sumEdges_defined [OF assms(1) v, of 0] obtain t where
    t: "calculateTotalDistance route m = Inr t" by (auto simp: calculateTotalDistance_def)
  from twoOptImprove_returns [of route m] o t obtain t' where
    t': "calculateTotalDistance optimized m = Inr t'" "t' \<le> t" "mset optimized = mset route"
    by (auto simp: notWorse_def)
  have vo: "\<forall>x \<in> set optimized. stopIndex m x"
    using v t'(3) by (metis mset_eq_setD)
  from metricsLoop_defined [OF assms(1) vo, of exact "(0, 0, 0, 0)"] obtain res where
    "calculateRouteMetrics exact optimized m = Inr res"
    by (auto simp: calculateRouteMetrics_def split: prod.splits)
  then have "nearestNeighbor2Opt m s e = Some (Inr res)"
    using g o by (simp add: nearestNeighbor2Opt_def route_def)
  then show ?thesis using g o t t' by (auto simp: route_def)
qed

lemma nnLoop_returns:
  "\<exists>res. nnLoop m u r c = Some res \<and> (\<forall>r'. res = Inr r' \<longrightarrow> (\<exists>ys. r' = r @ ys))"
proof (induction "length u" arbitrary: u r c rule: less_induct)
  case less
  show ?case
  proof (cases "u = []")
    case True
    then show ?thesis by (subst nnLoop.simps) simp
  next
    case False
    show ?thesis
    proof (cases "foldE (nearestStep m c) u (- 1, Infinity)")
      case (Inl e)
      then show ?thesis using False by (subst nnLoop.simps) simp
    next
      case (Inr best)
      obtain x d where best: "best = (x, d)" by (cases best)
      have "x \<in> set u" using nearest_member [of m c u "- 1" x d] Inr best False by simp
      then have "length (removeAll x u) < length u" by (rule length_removeAll_less)
      from less [OF this, of "r @ [x]" x] obtain res where
        res: "nnLoop m (removeAll x u) (r @ [x]) x = Some res"
        and ext: "\<forall>r'. res = Inr r' \<longrightarrow> (\<exists>ys. r' = (r @ [x]) @ ys)" by blast
      have "nnLoop m u r c = Some res"
        using False Inr best res by (subst nnLoop.simps) simp
      moreover have "\<forall>r'. res = Inr r' \<longrightarrow> (\<exists>ys. r' = r @ ys)"
        using ext by auto
      ultimately show ?thesis by blast
    qed
  qed
qed

section \<open>Termination of the solvers, and closed tours\<close>
















lemma closedRoute_intros [simp]:
  "closedRoute s (s # cur @ [s])" "closedRoute s [s, s]"
  unfolding closedRoute_def by (blast, metis append_Nil)















section \<open>Inputs that are not valid\<close>

lemma only_TypeError [simp]: "((e :: error) = TypeError) = True"
  by (cases e) simp

lemma cellAt_row_out: "\<not> stopIndex m a \<Longrightarrow> cellAt m a b = Inl TypeError"
  by (auto simp: cellAt_def stopIndex_def)

lemma cellAt_col_out: "squareMatrix m \<Longrightarrow> \<not> stopIndex m b \<Longrightarrow> cellAt m a b = Inl TypeError"
  by (auto simp: cellAt_def stopIndex_def squareMatrix_def list_all_length)

lemma permuteLeaf_start_out:
  assumes "\<not> stopIndex m s"
  shows "permuteLeaf m s e cur best = Inl TypeError"
proof (cases cur)
  case Nil
  then show ?thesis
    by (simp add: permuteLeaf_def Let_def cellAt_row_out [OF assms])
next
  case (Cons c cs)
  then show ?thesis
    by (simp add: permuteLeaf_def Let_def cellAt_row_out [OF assms])
qed

lemma permuteLeaf_end_out:
  assumes "squareMatrix m" and "\<not> stopIndex m k" and "stopIndex m s"
  shows "permuteLeaf m s (Some k) cur best = Inl TypeError"
proof -
  have "k \<noteq> s" using assms by auto
  then show ?thesis
    by (cases "sumEdges m (s # cur) 0")
       (simp_all add: permuteLeaf_def Let_def cellAt_col_out [OF assms(1,2)])
qed

lemma permute_leaves_fail:
  assumes "\<And>cur best. permuteLeaf m s e cur best = Inl TypeError"
  shows "permute m s e arr cur best = Inl TypeError"
    and "permuteFrom m s e arr cur i best = (if i < length arr then Inl TypeError else Inr best)"
  using assms
proof (induction m s e arr cur best and m s e arr cur i best rule: permute_permuteFrom.induct)
  case (1 matrix startIndex endIndex arr current best)
  then show ?case
    by (simp add: permute.simps [of _ _ _ arr])
next
  case (2 matrix startIndex endIndex arr current i best)
  show ?case
  proof (cases "i < length arr")
    case True
    have "permute matrix startIndex endIndex (take i arr @ drop (i + 1) arr) (current @ [arr ! i]) best
      = Inl TypeError"
      using "2.IH"(1) [OF True] "2.prems" by simp
    then show ?thesis
      using True by (simp add: permuteFrom.simps [of _ _ _ arr current i])
  next
    case False
    then show ?thesis by (simp add: permuteFrom.simps [of _ _ _ arr current i])
  qed
qed

lemma bruteForce_leaves_fail:
  assumes "\<And>cur best. permuteLeaf m s e cur best = Inl TypeError"
  shows "bruteForceOptimal m s e = Inl TypeError"
  by (simp add: bruteForceOptimal_def permute_leaves_fail(1) [OF assms])

lemma foldE_all_fail:
  assumes "xs \<noteq> []" and "\<And>x s. f x s = Inl TypeError"
  shows "foldE f xs s = Inl TypeError"
  using assms by (cases xs) simp_all

lemma cities_nonempty:
  assumes "2 \<le> length m \<or> (1 \<le> length m \<and> \<not> stopIndex m s)"
  shows "filter (\<lambda>i. i \<noteq> s) (indices (length m)) \<noteq> []"
proof -
  have "\<exists>x \<in> set (indices (length m)). x \<noteq> s"
  proof (cases "s = 0")
    case True
    then have "2 \<le> length m" using assms by (auto simp: stopIndex_def)
    then have "1 \<in> set (indices (length m))" by (auto simp: indices_def image_iff)
    then show ?thesis using True by (intro bexI [of _ 1]) simp_all
  next
    case False
    have "0 \<in> set (indices (length m))" using assms by (auto simp: indices_def image_iff)
    then show ?thesis using False by (intro bexI [of _ 0]) simp_all
  qed
  then show ?thesis
    by (simp add: filter_empty_conv)
qed

lemma heldKarp_start_out:
  assumes "1 \<le> length m" and "\<not> stopIndex m s"
  shows "heldKarpDP m s e = Some (Inl TypeError)"
proof -
  have "foldE (hkBase m s) (filter (\<lambda>i. i \<noteq> s) (indices (length m))) (Map.empty, Map.empty)
      = Inl TypeError"
    by (rule foldE_all_fail [OF cities_nonempty])
       (use assms in \<open>simp_all add: hkBase_def cellAt_row_out\<close>)
  then show ?thesis
    by (simp add: heldKarpDP_def)
qed

lemma heldKarp_end_out:
  assumes "2 \<le> length m" and "squareMatrix m" and "\<not> stopIndex m k" and "stopIndex m s"
  shows "heldKarpDP m s (Some k) = Some (Inl TypeError)"
proof -
  have ks: "k \<noteq> s" using assms by auto
  have fin: "foldE (hkFinal m s (Some k) dp fm) (filter (\<lambda>i. i \<noteq> s) (indices (length m))) st
      = Inl TypeError" for dp fm st
    by (rule foldE_all_fail [OF cities_nonempty])
       (use assms ks in \<open>simp_all add: hkFinal_def cellAt_col_out\<close>)
  show ?thesis
    by (simp add: heldKarpDP_def Let_def fin split: sum.splits prod.splits)
qed


lemma unvisited_nonempty:
  assumes "3 \<le> length m"
  shows "removeAll (k::int) (removeAll s (indices (length m))) \<noteq> []"
    and "removeAll s (indices (length m)) \<noteq> []"
proof -
  have in3: "0 \<in> set (indices (length m))" "1 \<in> set (indices (length m))"
    "2 \<in> set (indices (length m))"
    using assms by (auto simp: indices_def image_iff)
  have "(0 \<noteq> s \<and> 0 \<noteq> k) \<or> (1 \<noteq> s \<and> 1 \<noteq> k) \<or> (2 \<noteq> s \<and> 2 \<noteq> k)"
    by arith
  then have "\<exists>x. x \<in> set (removeAll k (removeAll s (indices (length m))))"
    using in3 by auto
  then show "removeAll k (removeAll s (indices (length m))) \<noteq> []"
    by (metis empty_iff empty_set)
  then show "removeAll s (indices (length m)) \<noteq> []"
    by auto
qed

lemma nnLoop_start_out:
  assumes "unvisited \<noteq> []" and "\<not> stopIndex m c"
  shows "nnLoop m unvisited route c = Some (Inl TypeError)"
proof -
  have "foldE (nearestStep m c) unvisited (- 1, Infinity) = Inl TypeError"
    by (rule foldE_all_fail [OF assms(1)]) (simp add: nearestStep_def cellAt_row_out [OF assms(2)])
  then show ?thesis
    using assms(1) by (subst nnLoop.simps) simp
qed

lemma nearestNeighbor2Opt_start_out:
  assumes "3 \<le> length m" and "\<not> stopIndex m s"
  shows "nearestNeighbor2Opt m s e = Some (Inl TypeError)"
  by (simp add: nearestNeighbor2Opt_def nearestNeighborGreedy_def Let_def
      nnLoop_start_out [OF _ assms(2)] unvisited_nonempty [OF assms(1)])

lemma metricsLoop_bad_index:
  assumes "squareMatrix m" and "\<not> stopIndex m k"
  shows "k \<in> set r \<Longrightarrow> 2 \<le> length r \<Longrightarrow> metricsLoop ar m r acc = Inl TypeError"
proof (induction r arbitrary: acc rule: induct_list012)
  case 1
  then show ?case by simp
next
  case (2 a)
  then show ?case by simp
next
  case (3 a b rest)
  obtain dur dis mn mx where acc: "acc = (dur, dis, mn, mx)" by (cases acc)
  show ?case
  proof (cases "cellAt m a b")
    case (Inl e)
    then show ?thesis using acc by simp
  next
    case (Inr c)
    then have "stopIndex m a" "stopIndex m b"
      using cellAt_row_out [of m a b] cellAt_col_out [OF assms(1), of b a] by auto
    then have "k \<in> set rest" using "3.prems"(1) assms(2) by auto
    then have "k \<in> set (b # rest)" "2 \<le> length (b # rest)"
      by (auto simp: Suc_le_eq)
    from "3.IH"(2) [OF this] show ?thesis using Inr acc by simp
  qed
qed

lemma calculateRouteMetrics_bad_index:
  assumes "squareMatrix m" and "\<not> stopIndex m k" and "k \<in> set r" and "2 \<le> length r"
  shows "calculateRouteMetrics ar r m = Inl TypeError"
  by (simp add: calculateRouteMetrics_def metricsLoop_bad_index [OF assms])

lemma nearestNeighbor2Opt_end_out:
  assumes "squareMatrix m" and "\<not> stopIndex m k" and "stopIndex m s"
  shows "nearestNeighbor2Opt m s (Some k) = Some (Inl TypeError)"
proof -
  have ks: "k \<noteq> s" using assms by auto
  obtain res where res: "nnLoop m (removeAll k (removeAll s (indices (length m)))) [s] s = Some res"
    and ext: "\<forall>r'. res = Inr r' \<longrightarrow> (\<exists>ys. r' = [s] @ ys)"
    using nnLoop_returns by blast
  show ?thesis
  proof (cases res)
    case (Inl e)
    then show ?thesis
      using res ks by (simp add: nearestNeighbor2Opt_def nearestNeighborGreedy_def Let_def)
  next
    case (Inr r')
    then obtain ys where r': "r' = s # ys" using ext by auto
    define route where "route = r' @ [k]"
    have g: "nearestNeighborGreedy m s (Some k) = Some (Inr route)"
      using res Inr ks by (simp add: nearestNeighborGreedy_def Let_def route_def)
    obtain res2 where res2: "twoOptImprove route m = Some res2"
      and nw: "\<forall>r2. res2 = Inr r2 \<longrightarrow> notWorse m (route, False) (r2, False)"
      using twoOptImprove_returns by blast
    show ?thesis
    proof (cases res2)
      case (Inl e)
      then show ?thesis using g res2 by (simp add: nearestNeighbor2Opt_def)
    next
      case (Inr r2)
      then have "mset r2 = mset route" using nw by (auto simp: notWorse_def)
      then have "set r2 = set route" "length r2 = length route"
        by (metis mset_eq_setD, metis size_mset)
      then have "k \<in> set r2" "2 \<le> length r2"
        by (simp_all add: route_def r')
      from calculateRouteMetrics_bad_index [OF assms(1,2) this]
      show ?thesis using g res2 Inr by (simp add: nearestNeighbor2Opt_def)
    qed
  qed
qed

text \<open>
  C3 as stated fails: \<open>optimizeRoute\<close> has no validation step, and a matrix of three rows of
  four cells, with start \<open>0\<close> and no end, is solved like a 3x3 matrix and gives a result.
\<close>

theorem nonsquare_matrix_accepted:
  "\<not> squareMatrix nonsquare34 \<and>
   optimizeRoute nonsquare34 0 None =
     Some (Inr \<lparr> orderedStops = [''0'', ''1'', ''2'', ''0''], totalDuration = 4,
                  totalDistance = 0, totalCost = \<lparr> cmin = 0, cmax = 0 \<rparr> \<rparr>)"
  by code_simp

text \<open>
  C3, amended: \<open>optimizeRoute\<close> fails with no result, by a TypeError raised inside the selected
  solver when it reads a cell that does not exist, whenever \<open>n < 1\<close>, or \<open>startIndex\<close> lies
  outside \<open>[0, n)\<close>, or the matrix is square and a non-null \<open>endIndex\<close> lies outside \<open>[0, n)\<close>.
\<close>

theorem optimizeRoute_bad_index_fails:
  assumes "length m < 1 \<or> \<not> stopIndex m s \<or> (squareMatrix m \<and> e = Some k \<and> \<not> stopIndex m k)"
  shows "optimizeRoute m s e = Some (Inl TypeError)"
proof (cases "stopIndex m s")
  case False
  have bf: "bruteForceOptimal m s e = Inl TypeError"
    by (rule bruteForce_leaves_fail) (rule permuteLeaf_start_out [OF False])
  show ?thesis
    using bf heldKarp_start_out [OF _ False, of e] nearestNeighbor2Opt_start_out [OF _ False, of e]
    by (simp add: optimizeRoute_def Let_def)
next
  case True
  then have "1 \<le> length m" by (auto simp: stopIndex_def)
  with True have sq: "squareMatrix m" and e: "e = Some k" and k: "\<not> stopIndex m k"
    using assms by auto
  have bf: "bruteForceOptimal m s e = Inl TypeError"
    unfolding e by (rule bruteForce_leaves_fail) (rule permuteLeaf_end_out [OF sq k True])
  show ?thesis
    using bf heldKarp_end_out [OF _ sq k True] nearestNeighbor2Opt_end_out [OF sq k True] e
    by (simp add: optimizeRoute_def Let_def)
qed

theorem optimizeRoute_bad_index_fails_witness:
  "length ([] :: DistanceMatrix) < 1 \<and> optimizeRoute [] 0 None = Some (Inl TypeError) \<and>
   \<not> stopIndex scenario3 3 \<and> optimizeRoute scenario3 3 None = Some (Inl TypeError) \<and>
   squareMatrix scenario3 \<and> \<not> stopIndex scenario3 5 \<and>
     optimizeRoute scenario3 0 (Some 5) = Some (Inl TypeError) \<and>
   squareMatrix (replicate 8 (replicate 8 (cell 60))) \<and>
     \<not> stopIndex (replicate 8 (replicate 8 (cell 60))) 8 \<and>
     optimizeRoute (replicate 8 (replicate 8 (cell 60))) 0 (Some 8) = Some (Inl TypeError) \<and>
   squareMatrix (replicate 11 (replicate 11 (cell 60))) \<and>
     \<not> stopIndex (replicate 11 (replicate 11 (cell 60))) (- 1) \<and>
     optimizeRoute (replicate 11 (replicate 11 (cell 60))) 0 (Some (- 1)) = Some (Inl TypeError)"
proof -
  have a: "length ([] :: DistanceMatrix) < 1" by simp
  have b: "\<not> stopIndex scenario3 3" by (simp add: stopIndex_def scenario3_def)
  have c: "squareMatrix scenario3" "\<not> stopIndex scenario3 5"
    by (simp_all add: squareMatrix_def stopIndex_def scenario3_def)
  have d: "squareMatrix (replicate 8 (replicate 8 (cell 60)))"
    "\<not> stopIndex (replicate 8 (replicate 8 (cell 60))) 8"
    by (simp_all add: squareMatrix_def stopIndex_def list_all_length)
  have e: "squareMatrix (replicate 11 (replicate 11 (cell 60)))"
    "\<not> stopIndex (replicate 11 (replicate 11 (cell 60))) (- 1)"
    by (simp_all add: squareMatrix_def stopIndex_def list_all_length)
  show ?thesis
    using a b c d e
      optimizeRoute_bad_index_fails [of "[]" 0 None]
      optimizeRoute_bad_index_fails [of scenario3 3 None]
      optimizeRoute_bad_index_fails [of scenario3 0 "Some 5" 5]
      optimizeRoute_bad_index_fails [of "replicate 8 (replicate 8 (cell 60))" 0 "Some 8" 8]
      optimizeRoute_bad_index_fails [of "replicate 11 (replicate 11 (cell 60))" 0 "Some (- 1)" "- 1"]
    by simp
qed

end
